theory Spec2Isabelle
  imports Main "HOL-Library.Sublist"
begin

section \<open>Paths (posixpath)\<close>

type_synonym path = string

definition rfind1 :: "string \<Rightarrow> nat" where
  "rfind1 p = length (dropWhile (\<lambda>c. c \<noteq> CHR ''/'') (rev p))"

definition rstrip :: "string \<Rightarrow> string" where
  "rstrip s = rev (dropWhile (\<lambda>c. c = CHR ''/'') (rev s))"

definition path_split :: "path \<Rightarrow> path \<times> string" where
  "path_split p =
     (let i = rfind1 p; head = take i p; tail = drop i p
      in (if head \<noteq> [] \<and> head \<noteq> replicate (length head) (CHR ''/'') then rstrip head else head,
          tail))"

definition dirname :: "path \<Rightarrow> path" where
  "dirname p =
     (let i = rfind1 p; head = take i p
      in if head \<noteq> [] \<and> head \<noteq> replicate (length head) (CHR ''/'') then rstrip head else head)"

definition join :: "path \<Rightarrow> string \<Rightarrow> path" where
  "join a b =
     (if take 1 b = ''/'' then b
      else if a = [] \<or> last a = CHR ''/'' then a @ b
      else a @ ''/'' @ b)"

fun split_sep :: "string \<Rightarrow> string list" where
  "split_sep [] = [[]]"
| "split_sep (c # cs) =
     (if c = CHR ''/'' then [] # split_sep cs
      else (case split_sep cs of [] \<Rightarrow> [[c]] | x # xs \<Rightarrow> (c # x) # xs))"

fun join_sep :: "string list \<Rightarrow> string" where
  "join_sep [] = []"
| "join_sep [x] = x"
| "join_sep (x # y # ys) = x @ ''/'' @ join_sep (y # ys)"

definition norm_step :: "nat \<Rightarrow> string list \<Rightarrow> string \<Rightarrow> string list" where
  "norm_step initial_slashes new_comps part =
     (if part = [] \<or> part = ''.'' then new_comps
      else if part \<noteq> ''..'' \<or> (initial_slashes = 0 \<and> new_comps = [])
                \<or> (new_comps \<noteq> [] \<and> last new_comps = ''..'')
        then new_comps @ [part]
      else if new_comps \<noteq> [] then butlast new_comps
      else new_comps)"

definition normpath :: "path \<Rightarrow> path" where
  "normpath p =
     (if p = [] then ''.''
      else
        let initial_slashes =
              (if take 1 p = ''/'' then (if take 2 p = ''//'' \<and> take 3 p \<noteq> ''///'' then 2 else 1)
               else (0::nat));
            comps = foldl (norm_step initial_slashes) [] (split_sep p);
            q = replicate initial_slashes (CHR ''/'') @ join_sep comps
        in if q = [] then ''.'' else q)"

definition isabs :: "path \<Rightarrow> bool" where
  "isabs p = (take 1 p = ''/'')"

definition abspath :: "path \<Rightarrow> path \<Rightarrow> path" where
  "abspath getcwd p = normpath (if \<not> isabs p then join getcwd p else p)"

text \<open>
  What a run depends on besides the file system: the path of the script as the
  interpreter was given it and the working directory (from which \<open>__file__\<close> is made
  absolute), the arguments and the environment, the encoding that \<open>open\<close> uses in text
  mode when none is given (the preferred encoding of the locale; three encodings are
  covered), and the limit on the size of a file that the process may write
  (\<open>RLIMIT_FSIZE\<close>, \<open>None\<close> when there is none).
\<close>

datatype encoding = UTF8 | ASCII | Latin1

record process =
  script_file :: path
  cwd :: path
  argv :: "string list"
  environ :: "(string \<times> string) list"
  preferred_encoding :: encoding
  rlimit_fsize :: "nat option"

definition script_dir :: "process \<Rightarrow> path" where
  "script_dir pr = dirname (dirname (abspath (cwd pr) (script_file pr)))"

definition source_folder :: "process \<Rightarrow> path" where
  "source_folder pr = join (script_dir pr) ''src''"

definition test_folder :: "process \<Rightarrow> path" where
  "test_folder pr = join (script_dir pr) ''tests''"

definition output_file :: "process \<Rightarrow> path" where
  "output_file pr = join (script_dir pr) ''classes.txt''"

section \<open>The file system\<close>

text \<open>
  A file system maps a path to a regular file with its bytes (characters 0 to 255), to a
  directory with the names it lists, in the order in which it lists them, or to an entry
  that the process may not open. Links are not covered.
\<close>

datatype node = File string | Dir "string list" | Denied

type_synonym fs = "path \<Rightarrow> node option"

datatype error =
  FileNotFoundError | IsADirectoryError | NotADirectoryError | PermissionError
  | UnicodeDecodeError | OSError_EFBIG

definition open_r :: "fs \<Rightarrow> path \<Rightarrow> error + string" where
  "open_r fs p =
     (case fs p of
        None \<Rightarrow> Inl FileNotFoundError
      | Some (File raw) \<Rightarrow> Inr raw
      | Some (Dir ns) \<Rightarrow> Inl IsADirectoryError
      | Some Denied \<Rightarrow> Inl PermissionError)"

text \<open>
  \<open>open(p, 'r')\<close> gives the bytes of a regular file or the error of opening it.
  \<open>read()\<close> then decodes all the bytes, strictly: bytes that are not valid in the
  encoding raise \<open>UnicodeDecodeError\<close>. After decoding, every CR LF pair and every
  lone CR becomes LF. In the three encodings the bytes 0D and 0A stand for CR and LF and
  for nothing else, and text that was decoded is encoded back to the same bytes, so the
  text is kept as bytes.
\<close>

definition in_range :: "nat \<Rightarrow> nat \<Rightarrow> char \<Rightarrow> bool" where
  "in_range lo hi c = (lo \<le> of_char c \<and> (of_char c :: nat) \<le> hi)"

fun utf8_valid :: "string \<Rightarrow> bool" where
  "utf8_valid [] = True"
| "utf8_valid (a # rest) =
     (if in_range 0x00 0x7F a then utf8_valid rest
      else if in_range 0xC2 0xDF a then
        (case rest of b # r1 \<Rightarrow> in_range 0x80 0xBF b \<and> utf8_valid r1 | _ \<Rightarrow> False)
      else if in_range 0xE0 0xE0 a then
        (case rest of b # c # r2 \<Rightarrow>
           in_range 0xA0 0xBF b \<and> in_range 0x80 0xBF c \<and> utf8_valid r2 | _ \<Rightarrow> False)
      else if in_range 0xE1 0xEC a \<or> in_range 0xEE 0xEF a then
        (case rest of b # c # r2 \<Rightarrow>
           in_range 0x80 0xBF b \<and> in_range 0x80 0xBF c \<and> utf8_valid r2 | _ \<Rightarrow> False)
      else if in_range 0xED 0xED a then
        (case rest of b # c # r2 \<Rightarrow>
           in_range 0x80 0x9F b \<and> in_range 0x80 0xBF c \<and> utf8_valid r2 | _ \<Rightarrow> False)
      else if in_range 0xF0 0xF0 a then
        (case rest of b # c # d # r3 \<Rightarrow>
           in_range 0x90 0xBF b \<and> in_range 0x80 0xBF c \<and> in_range 0x80 0xBF d \<and> utf8_valid r3
         | _ \<Rightarrow> False)
      else if in_range 0xF1 0xF3 a then
        (case rest of b # c # d # r3 \<Rightarrow>
           in_range 0x80 0xBF b \<and> in_range 0x80 0xBF c \<and> in_range 0x80 0xBF d \<and> utf8_valid r3
         | _ \<Rightarrow> False)
      else if in_range 0xF4 0xF4 a then
        (case rest of b # c # d # r3 \<Rightarrow>
           in_range 0x80 0x8F b \<and> in_range 0x80 0xBF c \<and> in_range 0x80 0xBF d \<and> utf8_valid r3
         | _ \<Rightarrow> False)
      else False)"

definition decodable :: "encoding \<Rightarrow> string \<Rightarrow> bool" where
  "decodable enc raw =
     (case enc of
        UTF8 \<Rightarrow> utf8_valid raw
      | ASCII \<Rightarrow> list_all (in_range 0x00 0x7F) raw
      | Latin1 \<Rightarrow> True)"

fun universal_newlines :: "string \<Rightarrow> string" where
  "universal_newlines [] = []"
| "universal_newlines [c] = [if c = CHR 0x0D then CHR 0x0A else c]"
| "universal_newlines (c # d # cs) =
     (if c = CHR 0x0D
      then CHR 0x0A # (if d = CHR 0x0A then universal_newlines cs else universal_newlines (d # cs))
      else c # universal_newlines (d # cs))"

definition read_text :: "encoding \<Rightarrow> string \<Rightarrow> error + string" where
  "read_text enc raw =
     (if decodable enc raw then Inr (universal_newlines raw) else Inl UnicodeDecodeError)"

definition creat :: "fs \<Rightarrow> path \<Rightarrow> error + fs" where
  "creat fs p =
     (let (parent, name) = path_split p
      in case fs parent of
           None \<Rightarrow> Inl FileNotFoundError
         | Some (Dir ns) \<Rightarrow>
             Inr (fs(p \<mapsto> File [], parent \<mapsto> Dir (if name \<in> set ns then ns else ns @ [name])))
         | Some (File raw) \<Rightarrow> Inl NotADirectoryError
         | Some Denied \<Rightarrow> Inl PermissionError)"

definition open_w :: "fs \<Rightarrow> path \<Rightarrow> error + fs" where
  "open_w fs p =
     (case fs p of
        None \<Rightarrow> creat fs p
      | Some (File old) \<Rightarrow> Inr (fs(p \<mapsto> File []))
      | Some (Dir ns) \<Rightarrow> Inl IsADirectoryError
      | Some Denied \<Rightarrow> Inl PermissionError)"

definition open_a :: "fs \<Rightarrow> path \<Rightarrow> error + fs" where
  "open_a fs p =
     (case fs p of
        None \<Rightarrow> creat fs p
      | Some (File old) \<Rightarrow> Inr fs
      | Some (Dir ns) \<Rightarrow> Inl IsADirectoryError
      | Some Denied \<Rightarrow> Inl PermissionError)"

text \<open>
  Text written to the output goes through a buffer. When the \<open>with\<close> block ends, by
  reaching its end or by an error, the file holds what it held when it was opened
  followed by the text written in the block, cut at the file size limit. If text was cut,
  the block ends with \<open>OSError\<close> (file too large), whatever error had ended it
  before. \<open>outfile_close\<close> gives this outcome of the block; it does not say at which
  call the buffer was flushed.
\<close>

definition outfile_close :: "nat option \<Rightarrow> fs \<Rightarrow> path \<Rightarrow> string \<Rightarrow> error option \<times> fs" where
  "outfile_close limit fs out buffer =
     (case fs out of
        Some (File written) \<Rightarrow>
          (let room = (case limit of None \<Rightarrow> length buffer | Some c \<Rightarrow> c - length written)
           in (if room < length buffer then Some OSError_EFBIG else None,
               fs(out \<mapsto> File (written @ take room buffer))))
      | _ \<Rightarrow> (None, fs))"

section \<open>glob\<close>

text \<open>
  \<open>glob.glob\<close> on a path name whose directory part holds none of the characters
  \<open>*\<close>, \<open>?\<close> and \<open>[\<close> (\<open>has_magic\<close> below): the directory part is taken as
  it is, its listing (empty when it cannot be listed) loses the names that begin with a
  dot unless the pattern begins with one, and the names that match the base name are
  joined to the directory part. A directory part with one of these characters would
  itself be expanded; the theorems that say which files a run reads assume a root path
  without them. The patterns of \<open>fnmatch\<close> are those made of \<open>*\<close> and of
  characters that stand for themselves.
\<close>

definition listdir :: "fs \<Rightarrow> path \<Rightarrow> string list" where
  "listdir fs d = (case fs d of Some (Dir ns) \<Rightarrow> ns | _ \<Rightarrow> [])"

definition ishidden :: "string \<Rightarrow> bool" where
  "ishidden n = (take 1 n = ''.'')"

fun fnmatch :: "string \<Rightarrow> string \<Rightarrow> bool" where
  "fnmatch [] [] = True"
| "fnmatch (c # cs) [] = False"
| "fnmatch [] (p # ps) = (p = CHR ''*'' \<and> fnmatch [] ps)"
| "fnmatch (c # cs) (p # ps) =
     (if p = CHR ''*'' then fnmatch (c # cs) ps \<or> fnmatch cs (p # ps)
      else p = c \<and> fnmatch cs ps)"

definition glob1 :: "fs \<Rightarrow> path \<Rightarrow> string \<Rightarrow> string list" where
  "glob1 fs d pattern =
     (let names = listdir fs d;
          names = (if \<not> ishidden pattern then filter (\<lambda>x. \<not> ishidden x) names else names)
      in filter (\<lambda>n. fnmatch n pattern) names)"

definition glob :: "fs \<Rightarrow> path \<Rightarrow> path list" where
  "glob fs pathname =
     (let (d, basename) = path_split pathname
      in map (join d) (glob1 fs d basename))"

definition has_magic :: "string \<Rightarrow> bool" where
  "has_magic s = list_ex (\<lambda>c. c = CHR ''*'' \<or> c = CHR ''?'' \<or> c = CHR ''['') s"

section \<open>The program\<close>

text \<open>
  The loop of a \<open>with\<close> block: each path is opened and read, and its text and a line
  feed are written. \<open>copy_files\<close> returns the error that ended the loop, if any,
  and the text written up to there. Each of the two blocks opens the output, runs the
  loop over the result of \<open>glob\<close>, called after the output was opened, and closes
  the output; the second block is not reached when the first ends with an error.
\<close>

fun copy_files :: "encoding \<Rightarrow> fs \<Rightarrow> path list \<Rightarrow> string \<Rightarrow> error option \<times> string" where
  "copy_files enc fs [] buffer = (None, buffer)"
| "copy_files enc fs (filepath # rest) buffer =
     (case open_r fs filepath of
        Inl e \<Rightarrow> (Some e, buffer)
      | Inr raw \<Rightarrow>
          (case read_text enc raw of
             Inl e \<Rightarrow> (Some e, buffer)
           | Inr text \<Rightarrow> copy_files enc fs rest (buffer @ text @ [CHR 0x0A])))"

definition with_outfile :: "process \<Rightarrow> path list \<Rightarrow> fs \<Rightarrow> error option \<times> fs" where
  "with_outfile pr paths fs =
     (case copy_files (preferred_encoding pr) fs paths [] of
        (raised, buffer) \<Rightarrow>
          (case outfile_close (rlimit_fsize pr) fs (output_file pr) buffer of
             (Some e, fs') \<Rightarrow> (Some e, fs')
           | (None, fs') \<Rightarrow> (raised, fs')))"

definition source_phase :: "process \<Rightarrow> fs \<Rightarrow> error option \<times> fs" where
  "source_phase pr fs0 =
     (case open_w fs0 (output_file pr) of
        Inl e \<Rightarrow> (Some e, fs0)
      | Inr fs1 \<Rightarrow> with_outfile pr (glob fs1 (join (source_folder pr) ''*.ts'')) fs1)"

definition test_phase :: "process \<Rightarrow> fs \<Rightarrow> error option \<times> fs" where
  "test_phase pr fs2 =
     (case open_a fs2 (output_file pr) of
        Inl e \<Rightarrow> (Some e, fs2)
      | Inr fs3 \<Rightarrow> with_outfile pr (glob fs3 (join (test_folder pr) ''*.ts'')) fs3)"

definition main :: "process \<Rightarrow> fs \<Rightarrow> error option \<times> fs" where
  "main pr fs0 =
     (case source_phase pr fs0 of
        (Some e, fs2) \<Rightarrow> (Some e, fs2)
      | (None, fs2) \<Rightarrow> test_phase pr fs2)"

section \<open>Notions used to state the properties\<close>

definition dir_prefix :: "path \<Rightarrow> path" where
  "dir_prefix a = (if a = [] \<or> last a = CHR ''/'' then a else a @ ''/'')"

definition ts_names :: "fs \<Rightarrow> path \<Rightarrow> string list" where
  "ts_names fs d = filter (\<lambda>n. \<not> ishidden n \<and> suffix ''.ts'' n) (listdir fs d)"

definition slurp :: "encoding \<Rightarrow> fs \<Rightarrow> path \<Rightarrow> error + string" where
  "slurp enc fs p = (case open_r fs p of Inl e \<Rightarrow> Inl e | Inr raw \<Rightarrow> read_text enc raw)"

definition readable :: "encoding \<Rightarrow> fs \<Rightarrow> path \<Rightarrow> bool" where
  "readable enc fs p = (case fs p of Some (File raw) \<Rightarrow> decodable enc raw | _ \<Rightarrow> False)"

definition contents :: "fs \<Rightarrow> path \<Rightarrow> string" where
  "contents fs p = (case fs p of Some (File raw) \<Rightarrow> raw | _ \<Rightarrow> [])"

definition block :: "fs \<Rightarrow> path \<Rightarrow> string" where
  "block fs p = universal_newlines (contents fs p) @ [CHR 0x0A]"

definition blocks :: "fs \<Rightarrow> path list \<Rightarrow> string" where
  "blocks fs ps = concat (map (block fs) ps)"

fun first_error :: "encoding \<Rightarrow> fs \<Rightarrow> path list \<Rightarrow> error option" where
  "first_error enc fs [] = None"
| "first_error enc fs (p # ps) =
     (case slurp enc fs p of Inl e \<Rightarrow> Some e | Inr text \<Rightarrow> first_error enc fs ps)"

definition over_limit :: "nat option \<Rightarrow> string \<Rightarrow> bool" where
  "over_limit limit s = (case limit of None \<Rightarrow> False | Some c \<Rightarrow> c < length s)"

definition within_limit :: "nat option \<Rightarrow> string \<Rightarrow> string" where
  "within_limit limit s = (case limit of None \<Rightarrow> s | Some c \<Rightarrow> take c s)"

definition source_paths :: "process \<Rightarrow> fs \<Rightarrow> path list" where
  "source_paths pr fs = map (join (source_folder pr)) (ts_names fs (source_folder pr))"

definition test_paths :: "process \<Rightarrow> fs \<Rightarrow> path list" where
  "test_paths pr fs = map (join (test_folder pr)) (ts_names fs (test_folder pr))"

definition raw_block :: "fs \<Rightarrow> path \<Rightarrow> string" where
  "raw_block fs p = contents fs p @ [CHR 0x0A]"

definition spec_classes_txt :: "process \<Rightarrow> fs \<Rightarrow> string" where
  "spec_classes_txt pr fs =
     concat (map (raw_block fs) (glob fs (join (source_folder pr) ''*.ts'')))
     @ concat (map (raw_block fs) (glob fs (join (test_folder pr) ''*.ts'')))"

definition pr_demo :: process where
  "pr_demo = \<lparr>script_file = ''scripts/concatenate_lib_classes.py'', cwd = ''/repo'',
              argv = [], environ = [],
              preferred_encoding = UTF8, rlimit_fsize = None\<rparr>"

definition fs_tree :: fs where
  "fs_tree =
     [''/repo'' \<mapsto> Dir [''scripts'', ''src'', ''tests''],
      ''/repo/scripts'' \<mapsto> Dir [''concatenate_lib_classes.py''],
      ''/repo/scripts/concatenate_lib_classes.py'' \<mapsto> File ''import glob'',
      ''/repo/src'' \<mapsto> Dir [''b.ts'', ''.hidden.ts'', ''a.ts'', ''notes.txt''],
      ''/repo/src/b.ts'' \<mapsto> File ''B'',
      ''/repo/src/.hidden.ts'' \<mapsto> File ''H'',
      ''/repo/src/a.ts'' \<mapsto> File ''class A {}'',
      ''/repo/src/notes.txt'' \<mapsto> File ''N'',
      ''/repo/tests'' \<mapsto> Dir [''t.ts''],
      ''/repo/tests/t.ts'' \<mapsto> File ''T'']"

definition fs_crlf :: fs where
  "fs_crlf =
     [''/repo'' \<mapsto> Dir [''scripts'', ''src'', ''tests''],
      ''/repo/src'' \<mapsto> Dir [''a.ts''],
      ''/repo/src/a.ts'' \<mapsto> File [CHR ''A'', CHR 0x0D, CHR 0x0A, CHR ''B''],
      ''/repo/tests'' \<mapsto> Dir []]"



definition fs_stale :: fs where
  "fs_stale = fs_tree(''/repo/classes.txt'' \<mapsto> File ''stale'')"




definition pr_args :: process where
  "pr_args = \<lparr>script_file = ''scripts/concatenate_lib_classes.py'', cwd = ''/repo'',
              argv = [''--root'', ''/elsewhere''], environ = [(''ROOT'', ''/elsewhere'')],
              preferred_encoding = UTF8, rlimit_fsize = None\<rparr>"






section \<open>Path facts\<close>

lemma join_rel: "take 1 x \<noteq> ''/'' \<Longrightarrow> join a x = dir_prefix a @ x"
  by (simp add: join_def dir_prefix_def)

lemma no_sep_rel: "CHR ''/'' \<notin> set x \<Longrightarrow> take 1 x \<noteq> ''/''"
  by (cases x) auto

lemma rfind1_append:
  assumes "CHR ''/'' \<notin> set x" and "a = [] \<or> last a = CHR ''/''"
  shows "rfind1 (a @ x) = length a"
proof -
  have "dropWhile (\<lambda>c. c \<noteq> CHR ''/'') (rev x @ rev a) = dropWhile (\<lambda>c. c \<noteq> CHR ''/'') (rev a)"
    using assms(1) by (intro dropWhile_append2) auto
  moreover have "dropWhile (\<lambda>c. c \<noteq> CHR ''/'') (rev a) = rev a"
    using assms(2) by (cases a rule: rev_cases) auto
  ultimately show ?thesis by (simp add: rfind1_def)
qed

lemma rstrip_snoc: "rstrip (a @ ''/'') = rstrip a"
  by (simp add: rstrip_def)

lemma rstrip_id: "a = [] \<or> last a \<noteq> CHR ''/'' \<Longrightarrow> rstrip a = a"
  by (cases a rule: rev_cases) (auto simp: rstrip_def)

lemma rstrip_shape: "rstrip a = [] \<or> last (rstrip a) \<noteq> CHR ''/''"
proof -
  have "dropWhile (\<lambda>c. c = CHR ''/'') (rev a) = [] \<or> hd (dropWhile (\<lambda>c. c = CHR ''/'') (rev a)) \<noteq> CHR ''/''"
    using hd_dropWhile [of "\<lambda>c. c = CHR ''/''" "rev a"] by blast
  then show ?thesis
    by (auto simp: rstrip_def last_rev)
qed

lemma dirname_fst: "dirname p = fst (path_split p)"
  by (simp add: dirname_def path_split_def Let_def)

lemma dirname_shape: "set (dirname p) \<subseteq> {CHR ''/''} \<or> last (dirname p) \<noteq> CHR ''/''"
proof (cases "take (rfind1 p) p \<noteq> [] \<and> take (rfind1 p) p \<noteq> replicate (length (take (rfind1 p) p)) (CHR ''/'')")
  case True
  then have "dirname p = rstrip (take (rfind1 p) p)" by (simp add: dirname_def Let_def)
  then show ?thesis using rstrip_shape [of "take (rfind1 p) p"] by auto
next
  case False
  then have d: "dirname p = take (rfind1 p) p" by (auto simp add: dirname_def Let_def)
  from False have "take (rfind1 p) p = [] \<or> take (rfind1 p) p = replicate (length (take (rfind1 p) p)) (CHR ''/'')" by blast
  then have "set (take (rfind1 p) p) \<subseteq> {CHR ''/''}"
    by (metis empty_set empty_subsetI set_replicate_conv_if subset_refl bot.extremum)
  then show ?thesis using d by simp
qed

lemma all_sep_replicate: "set a \<subseteq> {CHR ''/''} \<Longrightarrow> a = replicate (length a) (CHR ''/'')"
  by (induction a) auto

lemma split_join:
  assumes "set d \<subseteq> {CHR ''/''} \<or> last d \<noteq> CHR ''/''" and "CHR ''/'' \<notin> set x"
  shows "path_split (join d x) = (d, x)"
proof (cases "d = [] \<or> last d = CHR ''/''")
  case True
  then have j: "join d x = d @ x" using join_rel [OF no_sep_rel [OF assms(2)], of d] by (auto simp: dir_prefix_def)
  have r: "rfind1 (d @ x) = length d" using rfind1_append [OF assms(2) True] .
  from True assms(1) have "set d \<subseteq> {CHR ''/''}" by auto
  then have "d = replicate (length d) (CHR ''/'')" by (rule all_sep_replicate)
  then show ?thesis using j r by (simp add: path_split_def Let_def)
next
  case False
  then have j: "join d x = (d @ ''/'') @ x" using join_rel [OF no_sep_rel [OF assms(2)], of d] by (auto simp: dir_prefix_def)
  have r: "rfind1 ((d @ ''/'') @ x) = length (d @ ''/'')"
    by (rule rfind1_append [OF assms(2)]) simp
  have ne: "d @ ''/'' \<noteq> replicate (length (d @ ''/'')) (CHR ''/'')"
  proof
    assume "d @ ''/'' = replicate (length (d @ ''/'')) (CHR ''/'')"
    then have "set (d @ ''/'') \<subseteq> {CHR ''/''}" by (metis set_replicate_conv_if subset_refl empty_subsetI)
    with False show False by (cases d rule: rev_cases) auto
  qed
  have "rstrip (d @ ''/'') = d" using False by (simp add: rstrip_snoc rstrip_id)
  then show ?thesis using j r ne by (simp add: path_split_def Let_def del: append_assoc)
qed

section \<open>glob facts\<close>

lemma fnmatch_literal: "CHR ''*'' \<notin> set p \<Longrightarrow> fnmatch s p = (s = p)"
  by (induction s p rule: fnmatch.induct) auto

lemma fnmatch_ts: "fnmatch n ''*.ts'' = suffix ''.ts'' n"
proof (induction n)
  case Nil
  show ?case by simp
next
  case (Cons c cs)
  have "fnmatch (c # cs) ''*.ts'' = (fnmatch (c # cs) ''.ts'' \<or> fnmatch cs ''*.ts'')"
    by simp
  also have "\<dots> = (c # cs = ''.ts'' \<or> suffix ''.ts'' cs)"
    using Cons.IH fnmatch_literal [of "''.ts''" "c # cs"] by simp
  also have "\<dots> = suffix ''.ts'' (c # cs)"
    by (auto simp: suffix_Cons)
  finally show ?case .
qed

lemma glob1_ts: "glob1 fs d ''*.ts'' = ts_names fs d"
  by (simp add: glob1_def ts_names_def ishidden_def fnmatch_ts Let_def)

lemma glob_ts:
  assumes "last d \<noteq> CHR ''/''"
  shows "glob fs (join d ''*.ts'') = map (join d) (ts_names fs d)"
proof -
  have "path_split (join d ''*.ts'') = (d, ''*.ts'')"
    by (rule split_join) (use assms in auto)
  then show ?thesis by (simp add: glob_def glob1_ts)
qed

lemma join_last: "x \<noteq> [] \<Longrightarrow> last (join a x) = last x"
  by (simp add: join_def)

lemma source_folder_last: "last (source_folder pr) \<noteq> CHR ''/''"
  by (simp add: source_folder_def join_last)

lemma test_folder_last: "last (test_folder pr) \<noteq> CHR ''/''"
  by (simp add: test_folder_def join_last)

lemma join_suffix: "suffix x (join a x)"
  by (auto simp: join_def suffix_def)

lemma glob_ts_suffix:
  assumes "p \<in> set (map (join d) (ts_names fs d))"
  shows "suffix ''.ts'' p"
proof -
  from assms obtain n where "n \<in> set (ts_names fs d)" and p: "p = join d n" by auto
  then have "suffix ''.ts'' n" by (simp add: ts_names_def)
  then show ?thesis using join_suffix [of n d] p by (metis suffix_order.trans)
qed

lemma output_not_ts: "\<not> suffix ''.ts'' (output_file pr)"
proof
  assume "suffix ''.ts'' (output_file pr)"
  moreover have "suffix ''classes.txt'' (output_file pr)"
    by (simp add: output_file_def join_suffix)
  ultimately show False
    by (auto simp: suffix_def)
qed

lemma output_not_globbed: "output_file pr \<notin> set (map (join d) (ts_names fs d))"
  using glob_ts_suffix output_not_ts by blast

lemma split_output: "path_split (output_file pr) = (script_dir pr, ''classes.txt'')"
  unfolding output_file_def script_dir_def
  by (rule split_join) (use dirname_shape in auto)

section \<open>Facts about the file operations\<close>

lemma contents_open_r: "contents fs p = (case open_r fs p of Inl e \<Rightarrow> [] | Inr raw \<Rightarrow> raw)"
  by (simp add: contents_def open_r_def split: option.splits node.splits)

lemma open_r_upd_other: "p \<noteq> out \<Longrightarrow> open_r (fs(out \<mapsto> v)) p = open_r fs p"
  by (simp add: open_r_def)

lemma creat_output:
  assumes "creat fs (output_file pr) = Inr fs1"
  shows "\<exists>ns. fs (script_dir pr) = Some (Dir ns) \<and>
           fs1 = fs(output_file pr \<mapsto> File [],
                    script_dir pr \<mapsto> Dir (if ''classes.txt'' \<in> set ns then ns else ns @ [''classes.txt'']))"
  using assms by (auto simp: creat_def split_output split: option.splits node.splits)

lemma open_w_cases:
  assumes "open_w fs (output_file pr) = Inr fs1"
  shows "(\<exists>old. fs (output_file pr) = Some (File old) \<and> fs1 = fs(output_file pr \<mapsto> File []))
       \<or> (fs (output_file pr) = None \<and> (\<exists>ns. fs (script_dir pr) = Some (Dir ns) \<and>
           fs1 = fs(output_file pr \<mapsto> File [],
                    script_dir pr \<mapsto> Dir (if ''classes.txt'' \<in> set ns then ns else ns @ [''classes.txt'']))))"
proof (cases "fs (output_file pr)")
  case None
  then have "creat fs (output_file pr) = Inr fs1" using assms by (simp add: open_w_def)
  then show ?thesis using None creat_output by blast
next
  case (Some nd)
  then show ?thesis using assms by (cases nd) (simp_all add: open_w_def)
qed

lemma open_w_output:
  assumes "open_w fs (output_file pr) = Inr fs1"
  shows "fs1 (output_file pr) = Some (File [])"
  using open_w_cases [OF assms] by auto

lemma open_w_open_r:
  assumes "open_w fs (output_file pr) = Inr fs1" and "p \<noteq> output_file pr"
  shows "open_r fs1 p = open_r fs p"
proof -
  from open_w_cases [OF assms(1)] consider
    (trunc) "fs1 = fs(output_file pr \<mapsto> File [])"
  | (new) ns ms where "fs (script_dir pr) = Some (Dir ns)"
      "fs1 = fs(output_file pr \<mapsto> File [], script_dir pr \<mapsto> Dir ms)"
    by blast
  then show ?thesis
  proof cases
    case trunc
    then show ?thesis using assms(2) by (simp add: open_r_def)
  next
    case new
    then show ?thesis using assms(2) by (simp add: open_r_def)
  qed
qed

lemma classes_txt_not_ts: "\<not> (\<not> ishidden ''classes.txt'' \<and> suffix ''.ts'' ''classes.txt'')"
  by (auto simp: suffix_def)

lemma listdir_upd_File: "fs out = None \<or> fs out = Some (File a) \<Longrightarrow> listdir (fs(out \<mapsto> File b)) d = listdir fs d"
  by (auto simp: listdir_def)

lemma open_w_ts_names:
  assumes "open_w fs (output_file pr) = Inr fs1"
  shows "ts_names fs1 d = ts_names fs d"
proof -
  from open_w_cases [OF assms] consider
    (trunc) old where "fs (output_file pr) = Some (File old)" "fs1 = fs(output_file pr \<mapsto> File [])"
  | (new) ns where "fs (output_file pr) = None" "fs (script_dir pr) = Some (Dir ns)"
      "fs1 = fs(output_file pr \<mapsto> File [],
                script_dir pr \<mapsto> Dir (if ''classes.txt'' \<in> set ns then ns else ns @ [''classes.txt'']))"
    by blast
  then show ?thesis
  proof cases
    case trunc
    then show ?thesis by (simp add: ts_names_def listdir_def)
  next
    case new
    show ?thesis
    proof (cases "d = script_dir pr")
      case True
      then show ?thesis using new classes_txt_not_ts by (simp add: ts_names_def listdir_def)
    next
      case False
      then show ?thesis using new by (simp add: ts_names_def listdir_def)
    qed
  qed
qed

lemma ts_names_upd_File:
  "fs out = Some (File a) \<Longrightarrow> ts_names (fs(out \<mapsto> File b)) d = ts_names fs d"
  by (simp add: ts_names_def listdir_def)

lemma glob_source: "glob fs (join (source_folder pr) ''*.ts'') = source_paths pr fs"
  by (simp add: glob_ts source_folder_last source_paths_def)

lemma glob_test: "glob fs (join (test_folder pr) ''*.ts'') = test_paths pr fs"
  by (simp add: glob_ts test_folder_last test_paths_def)

lemma output_not_source: "output_file pr \<notin> set (source_paths pr fs)"
  unfolding source_paths_def by (rule output_not_globbed)

lemma output_not_test: "output_file pr \<notin> set (test_paths pr fs)"
  unfolding test_paths_def by (rule output_not_globbed)

lemma readable_slurp: "readable enc fs p = (case slurp enc fs p of Inl e \<Rightarrow> False | Inr text \<Rightarrow> True)"
  by (simp add: readable_def slurp_def open_r_def read_text_def split: option.splits node.splits)

lemma slurp_Inr: "slurp enc fs p = Inr text \<Longrightarrow> text @ [CHR 0x0A] = block fs p"
  by (auto simp: slurp_def open_r_def read_text_def block_def contents_def
      split: option.splits node.splits if_splits)

lemma slurp_cong: "open_r fs' p = open_r fs p \<Longrightarrow> slurp enc fs' p = slurp enc fs p"
  by (simp add: slurp_def)

lemma readable_cong: "open_r fs' p = open_r fs p \<Longrightarrow> readable enc fs' p = readable enc fs p"
  by (simp add: readable_slurp slurp_def)

lemma block_cong: "open_r fs' p = open_r fs p \<Longrightarrow> block fs' p = block fs p"
  by (simp add: block_def contents_open_r)

lemma blocks_cong: "\<forall>p\<in>set ps. open_r fs' p = open_r fs p \<Longrightarrow> blocks fs' ps = blocks fs ps"
  unfolding blocks_def by (induction ps) (auto simp: block_def contents_open_r)

lemma takeWhile_readable_cong:
  "\<forall>p\<in>set ps. open_r fs' p = open_r fs p
    \<Longrightarrow> takeWhile (readable enc fs') ps = takeWhile (readable enc fs) ps"
  by (induction ps) (auto simp: readable_slurp slurp_def)

lemma first_error_cong:
  "\<forall>p\<in>set ps. open_r fs' p = open_r fs p \<Longrightarrow> first_error enc fs' ps = first_error enc fs ps"
  by (induction ps) (auto simp: slurp_def split: sum.splits)

lemma first_error_None: "first_error enc fs ps = None \<Longrightarrow> takeWhile (readable enc fs) ps = ps"
  by (induction ps) (auto simp: readable_slurp split: sum.splits)

lemma first_error_None_iff: "(first_error enc fs ps = None) = (\<forall>p\<in>set ps. readable enc fs p)"
  by (induction ps) (auto simp: readable_slurp split: sum.splits)

lemma blocks_append: "blocks fs (xs @ ys) = blocks fs xs @ blocks fs ys"
  by (simp add: blocks_def)

lemma first_error_append:
  "first_error enc fs (xs @ ys) =
     (case first_error enc fs xs of None \<Rightarrow> first_error enc fs ys | Some e \<Rightarrow> Some e)"
  by (induction xs) (auto split: sum.splits)

lemma takeWhile_readable_append:
  "takeWhile (readable enc fs) (xs @ ys) =
     (if first_error enc fs xs = None then xs @ takeWhile (readable enc fs) ys
      else takeWhile (readable enc fs) xs)"
proof (cases "\<forall>x\<in>set xs. readable enc fs x")
  case True
  then have "takeWhile (readable enc fs) (xs @ ys) = xs @ takeWhile (readable enc fs) ys"
    by simp
  moreover have "first_error enc fs xs = None"
    using True by (simp only: first_error_None_iff)
  ultimately show ?thesis by simp
next
  case False
  then obtain x where "x \<in> set xs" "\<not> readable enc fs x" by blast
  then have "takeWhile (readable enc fs) (xs @ ys) = takeWhile (readable enc fs) xs"
    by (rule takeWhile_append1)
  moreover obtain e where "first_error enc fs xs = Some e"
    using False first_error_None_iff [of enc fs xs] by auto
  ultimately show ?thesis by simp
qed

lemma copy_files_Cons:
  "copy_files enc fs (p # ps) buffer =
     (case slurp enc fs p of
        Inl e \<Rightarrow> (Some e, buffer)
      | Inr text \<Rightarrow> copy_files enc fs ps (buffer @ text @ [CHR 0x0A]))"
  by (simp add: slurp_def split: sum.splits)

lemma copy_files_result:
  "copy_files enc fs ps buffer =
     (first_error enc fs ps, buffer @ blocks fs (takeWhile (readable enc fs) ps))"
proof (induction ps arbitrary: buffer)
  case Nil
  show ?case by (simp add: blocks_def)
next
  case (Cons p ps)
  show ?case
  proof (cases "slurp enc fs p")
    case (Inl e)
    then have nr: "\<not> readable enc fs p" by (simp add: readable_slurp)
    have "copy_files enc fs (p # ps) buffer = (Some e, buffer)"
      unfolding copy_files_Cons using Inl by simp
    then show ?thesis using Inl nr by (simp add: blocks_def)
  next
    case (Inr t)
    then have rd: "readable enc fs p" by (simp add: readable_slurp)
    have b: "t @ [CHR 0x0A] = block fs p" using Inr by (rule slurp_Inr)
    have "copy_files enc fs (p # ps) buffer = copy_files enc fs ps (buffer @ t @ [CHR 0x0A])"
      unfolding copy_files_Cons using Inr by simp
    also have "\<dots> = (first_error enc fs ps,
        (buffer @ t @ [CHR 0x0A]) @ blocks fs (takeWhile (readable enc fs) ps))"
      by (rule Cons.IH)
    finally show ?thesis using Inr rd b by (simp add: blocks_def)
  qed
qed

lemma take_room: "length w \<le> c \<Longrightarrow> w @ take (c - length w) s = take c (w @ s)"
  by simp

lemma with_outfile_result:
  assumes "fs (output_file pr) = Some (File w)" and "\<not> over_limit (rlimit_fsize pr) w"
  shows "with_outfile pr ps fs =
     (if over_limit (rlimit_fsize pr)
           (w @ blocks fs (takeWhile (readable (preferred_encoding pr) fs) ps))
      then Some OSError_EFBIG else first_error (preferred_encoding pr) fs ps,
      fs(output_file pr \<mapsto>
         File (within_limit (rlimit_fsize pr)
                 (w @ blocks fs (takeWhile (readable (preferred_encoding pr) fs) ps)))))"
proof -
  define s where "s = blocks fs (takeWhile (readable (preferred_encoding pr) fs) ps)"
  have cf: "copy_files (preferred_encoding pr) fs ps [] = (first_error (preferred_encoding pr) fs ps, s)"
    by (simp add: copy_files_result s_def)
  show ?thesis
  proof (cases "rlimit_fsize pr")
    case None
    have "outfile_close None fs (output_file pr) s = (None, fs(output_file pr \<mapsto> File (w @ s)))"
      using assms(1) by (simp add: outfile_close_def)
    then show ?thesis
      using cf None by (simp add: with_outfile_def over_limit_def within_limit_def s_def)
  next
    case (Some c)
    then have wc: "length w \<le> c" using assms(2) by (simp add: over_limit_def)
    have cl: "outfile_close (Some c) fs (output_file pr) s =
        (if c - length w < length s then Some OSError_EFBIG else None,
         fs(output_file pr \<mapsto> File (w @ take (c - length w) s)))"
      using assms(1) by (simp add: outfile_close_def)
    have ov: "(c - length w < length s) = (c < length (w @ s))"
      using wc by auto
    have tk: "w @ take (c - length w) s = take c (w @ s)"
      using wc by (rule take_room)
    show ?thesis
    proof (cases "c < length (w @ s)")
      case True
      then show ?thesis
        using cf Some cl ov tk
        by (simp add: with_outfile_def over_limit_def within_limit_def s_def [symmetric])
    next
      case False
      then show ?thesis
        using cf Some cl ov tk
        by (simp add: with_outfile_def over_limit_def within_limit_def s_def [symmetric])
    qed
  qed
qed

lemma agree_off_output:
  assumes "\<And>p. p \<noteq> out \<Longrightarrow> open_r fs' p = open_r fs p" and "out \<notin> set ps"
  shows "first_error enc fs' ps = first_error enc fs ps"
    and "takeWhile (readable enc fs') ps = takeWhile (readable enc fs) ps"
    and "blocks fs' (takeWhile (readable enc fs) ps) = blocks fs (takeWhile (readable enc fs) ps)"
    and "blocks fs' ps = blocks fs ps"
proof -
  have agree: "\<forall>q\<in>set ps. open_r fs' q = open_r fs q"
    using assms by metis
  show "first_error enc fs' ps = first_error enc fs ps"
    using agree by (rule first_error_cong)
  show "takeWhile (readable enc fs') ps = takeWhile (readable enc fs) ps"
    using agree by (rule takeWhile_readable_cong)
  have "\<forall>q\<in>set (takeWhile (readable enc fs) ps). open_r fs' q = open_r fs q"
    using agree by (meson set_takeWhileD)
  then show "blocks fs' (takeWhile (readable enc fs) ps) = blocks fs (takeWhile (readable enc fs) ps)"
    by (rule blocks_cong)
  show "blocks fs' ps = blocks fs ps"
    using agree by (rule blocks_cong)
qed

lemma over_limit_Nil: "\<not> over_limit limit []"
  by (simp add: over_limit_def split: option.splits)

lemma within_limit_id: "\<not> over_limit limit s \<Longrightarrow> within_limit limit s = s"
  by (simp add: over_limit_def within_limit_def split: option.splits)

lemma over_limit_append: "over_limit limit s \<Longrightarrow> over_limit limit (s @ t)"
  by (auto simp: over_limit_def split: option.splits)

lemma within_limit_append: "over_limit limit s \<Longrightarrow> within_limit limit (s @ t) = within_limit limit s"
  by (auto simp: over_limit_def within_limit_def split: option.splits)

lemma with_outfile_changes_output_only:
  assumes "fs (output_file pr) = Some (File w)" and "\<not> over_limit (rlimit_fsize pr) w"
    and "\<And>p. p \<noteq> output_file pr \<Longrightarrow> open_r fs p = open_r fs0 p"
    and "output_file pr \<notin> set ps"
  shows "with_outfile pr ps fs =
     (if over_limit (rlimit_fsize pr)
           (w @ blocks fs0 (takeWhile (readable (preferred_encoding pr) fs0) ps))
      then Some OSError_EFBIG else first_error (preferred_encoding pr) fs0 ps,
      fs(output_file pr \<mapsto>
         File (within_limit (rlimit_fsize pr)
                 (w @ blocks fs0 (takeWhile (readable (preferred_encoding pr) fs0) ps)))))"
proof -
  have a1: "first_error (preferred_encoding pr) fs ps = first_error (preferred_encoding pr) fs0 ps"
    by (rule agree_off_output(1) [OF assms(3,4)])
  have a2: "takeWhile (readable (preferred_encoding pr) fs) ps
      = takeWhile (readable (preferred_encoding pr) fs0) ps"
    by (rule agree_off_output(2) [OF assms(3,4)])
  have a3: "blocks fs (takeWhile (readable (preferred_encoding pr) fs0) ps)
      = blocks fs0 (takeWhile (readable (preferred_encoding pr) fs0) ps)"
    by (rule agree_off_output(3) [OF assms(3,4)])
  show ?thesis
    unfolding with_outfile_result [where fs = fs and pr = pr and w = w and ps = ps, OF assms(1,2)] a1 a2 a3 ..
qed

lemma source_phase_open_failed:
  "open_w fs (output_file pr) = Inl e \<Longrightarrow> source_phase pr fs = (Some e, fs)"
  by (simp add: source_phase_def)

lemma main_open_failed:
  "open_w fs (output_file pr) = Inl e \<Longrightarrow> main pr fs = (Some e, fs)"
  by (simp add: main_def source_phase_open_failed)

lemma source_phase_result:
  assumes ow: "open_w fs (output_file pr) = Inr fs1"
  shows "source_phase pr fs =
     (if over_limit (rlimit_fsize pr)
           (blocks fs (takeWhile (readable (preferred_encoding pr) fs) (source_paths pr fs)))
      then Some OSError_EFBIG else first_error (preferred_encoding pr) fs (source_paths pr fs),
      fs1(output_file pr \<mapsto>
         File (within_limit (rlimit_fsize pr)
                 (blocks fs (takeWhile (readable (preferred_encoding pr) fs) (source_paths pr fs))))))"
proof -
  have out1: "fs1 (output_file pr) = Some (File [])"
    using ow by (rule open_w_output)
  have r1: "\<And>p. p \<noteq> output_file pr \<Longrightarrow> open_r fs1 p = open_r fs p"
    using open_w_open_r [OF ow] .
  have g1: "glob fs1 (join (source_folder pr) ''*.ts'') = source_paths pr fs"
    by (simp add: glob_source source_paths_def open_w_ts_names [OF ow])
  have "source_phase pr fs = with_outfile pr (source_paths pr fs) fs1"
    using ow g1 by (simp add: source_phase_def)
  also have "\<dots> =
     (if over_limit (rlimit_fsize pr)
           ([] @ blocks fs (takeWhile (readable (preferred_encoding pr) fs) (source_paths pr fs)))
      then Some OSError_EFBIG else first_error (preferred_encoding pr) fs (source_paths pr fs),
      fs1(output_file pr \<mapsto>
         File (within_limit (rlimit_fsize pr)
                 ([] @ blocks fs (takeWhile (readable (preferred_encoding pr) fs) (source_paths pr fs))))))"
    by (rule with_outfile_changes_output_only [OF out1 over_limit_Nil r1 output_not_source])
  finally show ?thesis by simp
qed

lemma test_phase_result:
  assumes ow: "open_w fs (output_file pr) = Inr fs1"
    and fs2: "fs2 = fs1(output_file pr \<mapsto> File w)" and w: "\<not> over_limit (rlimit_fsize pr) w"
  shows "test_phase pr fs2 =
     (if over_limit (rlimit_fsize pr)
           (w @ blocks fs (takeWhile (readable (preferred_encoding pr) fs) (test_paths pr fs)))
      then Some OSError_EFBIG else first_error (preferred_encoding pr) fs (test_paths pr fs),
      fs1(output_file pr \<mapsto>
         File (within_limit (rlimit_fsize pr)
                 (w @ blocks fs (takeWhile (readable (preferred_encoding pr) fs) (test_paths pr fs))))))"
proof -
  have out1: "fs1 (output_file pr) = Some (File [])"
    using ow by (rule open_w_output)
  have out2: "fs2 (output_file pr) = Some (File w)"
    by (simp add: fs2)
  have oa: "open_a fs2 (output_file pr) = Inr fs2"
    using out2 by (simp add: open_a_def)
  have r2: "\<And>p. p \<noteq> output_file pr \<Longrightarrow> open_r fs2 p = open_r fs p"
    using open_w_open_r [OF ow] by (simp add: fs2 open_r_upd_other)
  have "ts_names fs2 (test_folder pr) = ts_names fs1 (test_folder pr)"
    unfolding fs2 using out1 by (rule ts_names_upd_File)
  then have g2: "glob fs2 (join (test_folder pr) ''*.ts'') = test_paths pr fs"
    by (simp add: glob_test test_paths_def open_w_ts_names [OF ow])
  have "test_phase pr fs2 = with_outfile pr (test_paths pr fs) fs2"
    using oa g2 by (simp add: test_phase_def)
  also have "\<dots> =
     (if over_limit (rlimit_fsize pr)
           (w @ blocks fs (takeWhile (readable (preferred_encoding pr) fs) (test_paths pr fs)))
      then Some OSError_EFBIG else first_error (preferred_encoding pr) fs (test_paths pr fs),
      fs2(output_file pr \<mapsto>
         File (within_limit (rlimit_fsize pr)
                 (w @ blocks fs (takeWhile (readable (preferred_encoding pr) fs) (test_paths pr fs))))))"
    by (rule with_outfile_changes_output_only [OF out2 w r2 output_not_test])
  finally show ?thesis by (simp add: fs2)
qed

lemma main_result_combined:
  assumes ow: "open_w fs (output_file pr) = Inr fs1"
  shows "main pr fs =
     (if over_limit (rlimit_fsize pr)
           (blocks fs (takeWhile (readable (preferred_encoding pr) fs)
                                 (source_paths pr fs @ test_paths pr fs)))
      then Some OSError_EFBIG
      else first_error (preferred_encoding pr) fs (source_paths pr fs @ test_paths pr fs),
      fs1(output_file pr \<mapsto>
         File (within_limit (rlimit_fsize pr)
                 (blocks fs (takeWhile (readable (preferred_encoding pr) fs)
                                       (source_paths pr fs @ test_paths pr fs))))))"
proof -
  define enc where "enc = preferred_encoding pr"
  define lim where "lim = rlimit_fsize pr"
  define out where "out = output_file pr"
  define S where "S = source_paths pr fs"
  define T where "T = test_paths pr fs"
  define s1 where "s1 = blocks fs (takeWhile (readable enc fs) S)"
  define s2 where "s2 = blocks fs (takeWhile (readable enc fs) T)"
  have sp: "source_phase pr fs =
      (if over_limit lim s1 then Some OSError_EFBIG else first_error enc fs S,
       fs1(out \<mapsto> File (within_limit lim s1)))"
    using source_phase_result [OF ow] by (simp add: enc_def lim_def out_def S_def s1_def)
  show ?thesis
  proof (cases "over_limit lim s1")
    case True
    have tw: "\<exists>more. blocks fs (takeWhile (readable enc fs) (S @ T)) = s1 @ more"
    proof (cases "first_error enc fs S")
      case None
      then have "takeWhile (readable enc fs) (S @ T) = takeWhile (readable enc fs) S @ takeWhile (readable enc fs) T"
        by (simp add: takeWhile_readable_append first_error_None)
      then show ?thesis by (simp add: blocks_append s1_def)
    next
      case (Some e)
      then have "takeWhile (readable enc fs) (S @ T) = takeWhile (readable enc fs) S"
        by (simp add: takeWhile_readable_append)
      then show ?thesis by (simp add: s1_def)
    qed
    then obtain more where m: "blocks fs (takeWhile (readable enc fs) (S @ T)) = s1 @ more" ..
    have "main pr fs = (Some OSError_EFBIG, fs1(out \<mapsto> File (within_limit lim s1)))"
      using sp True by (simp add: main_def)
    moreover have "over_limit lim (s1 @ more)" using True by (rule over_limit_append)
    moreover have "within_limit lim (s1 @ more) = within_limit lim s1"
      using True by (rule within_limit_append)
    ultimately show ?thesis
      using m by (simp add: enc_def lim_def out_def S_def T_def)
  next
    case False
    note fits = this
    show ?thesis
    proof (cases "first_error enc fs S")
      case (Some e)
      then have tw: "takeWhile (readable enc fs) (S @ T) = takeWhile (readable enc fs) S"
        by (simp add: takeWhile_readable_append)
      have fe: "first_error enc fs (S @ T) = Some e"
        using Some by (simp add: first_error_append)
      have "main pr fs = (Some e, fs1(out \<mapsto> File (within_limit lim s1)))"
        using sp fits Some by (simp add: main_def)
      then show ?thesis
        using fits tw fe by (simp add: enc_def lim_def out_def S_def T_def s1_def)
    next
      case None
      then have tw: "takeWhile (readable enc fs) (S @ T) = S @ takeWhile (readable enc fs) T"
        by (simp add: takeWhile_readable_append)
      have twS: "takeWhile (readable enc fs) S = S"
        using None by (rule first_error_None)
      have fe: "first_error enc fs (S @ T) = first_error enc fs T"
        using None by (simp add: first_error_append)
      have all: "blocks fs (takeWhile (readable enc fs) (S @ T)) = s1 @ s2"
        by (simp add: tw blocks_append s1_def s2_def twS)
      define fs2 where "fs2 = fs1(out \<mapsto> File s1)"
      have "source_phase pr fs = (None, fs2)"
        using sp fits None by (simp add: fs2_def within_limit_id)
      then have "main pr fs = test_phase pr fs2"
        by (simp add: main_def)
      also have "\<dots> =
         (if over_limit lim (s1 @ s2) then Some OSError_EFBIG else first_error enc fs T,
          fs1(out \<mapsto> File (within_limit lim (s1 @ s2))))"
        using test_phase_result [OF ow, of fs2 s1] fits
        by (simp add: fs2_def enc_def lim_def out_def T_def s2_def)
      finally show ?thesis
        using all fe by (simp add: enc_def lim_def out_def S_def T_def)
    qed
  qed
qed

lemma main_cong:
  assumes "open_w fs (output_file pr) = Inr fs1"
    and "open_w fs' (output_file pr) = Inr fs1"
    and "\<And>p. p \<noteq> output_file pr \<Longrightarrow> open_r fs' p = open_r fs p"
    and "\<And>d. ts_names fs' d = ts_names fs d"
  shows "main pr fs' = main pr fs"
proof -
  define P where "P = source_paths pr fs @ test_paths pr fs"
  define enc where "enc = preferred_encoding pr"
  have P': "source_paths pr fs' @ test_paths pr fs' = P"
    by (simp add: P_def source_paths_def test_paths_def assms(4))
  have out: "output_file pr \<notin> set P"
    using output_not_source [of pr fs] output_not_test [of pr fs] by (simp add: P_def)
  have a1: "first_error enc fs' P = first_error enc fs P"
    by (rule agree_off_output(1) [OF assms(3) out])
  have a2: "takeWhile (readable enc fs') P = takeWhile (readable enc fs) P"
    by (rule agree_off_output(2) [OF assms(3) out])
  have a3: "blocks fs' (takeWhile (readable enc fs) P) = blocks fs (takeWhile (readable enc fs) P)"
    by (rule agree_off_output(3) [OF assms(3) out])
  have "main pr fs' =
     (if over_limit (rlimit_fsize pr) (blocks fs' (takeWhile (readable enc fs') P))
      then Some OSError_EFBIG else first_error enc fs' P,
      fs1(output_file pr \<mapsto>
         File (within_limit (rlimit_fsize pr) (blocks fs' (takeWhile (readable enc fs') P)))))"
    using main_result_combined [OF assms(2)] by (simp only: P' enc_def)
  also have "\<dots> =
     (if over_limit (rlimit_fsize pr) (blocks fs (takeWhile (readable enc fs) P))
      then Some OSError_EFBIG else first_error enc fs P,
      fs1(output_file pr \<mapsto>
         File (within_limit (rlimit_fsize pr) (blocks fs (takeWhile (readable enc fs) P)))))"
    unfolding a1 a2 a3 ..
  also have "\<dots> = main pr fs"
    using main_result_combined [OF assms(1)] by (simp only: P_def enc_def)
  finally show ?thesis .
qed

lemma main_snd:
  assumes "open_w fs (output_file pr) = Inr fs1"
  shows "\<exists>written. snd (main pr fs) = fs1(output_file pr \<mapsto> File written)"
  unfolding main_result_combined [OF assms] by auto

section \<open>Running again\<close>

lemma join_longer: "x \<noteq> [] \<Longrightarrow> take 1 x \<noteq> ''/'' \<Longrightarrow> length a < length (join a x)"
  by (simp add: join_def)

lemma script_dir_ne_output: "script_dir pr \<noteq> output_file pr"
  using join_longer [of "''classes.txt''" "script_dir pr"] by (auto simp: output_file_def)

lemma script_dir_ne_source: "script_dir pr \<noteq> source_folder pr"
  using join_longer [of "''src''" "script_dir pr"] by (auto simp: source_folder_def)

lemma script_dir_ne_test: "script_dir pr \<noteq> test_folder pr"
  using join_longer [of "''tests''" "script_dir pr"] by (auto simp: test_folder_def)

lemma rerun_after_open:
  assumes ow: "open_w fs (output_file pr) = Inr fs1"
    and fs': "fs' = fs1(output_file pr \<mapsto> File written)"
  shows "main pr fs' = main pr fs"
proof -
  have o1: "fs1 (output_file pr) = Some (File [])"
    using ow by (rule open_w_output)
  have "fs'(output_file pr \<mapsto> File []) = fs1"
    using o1 by (simp add: fs' fun_upd_idem)
  then have ow': "open_w fs' (output_file pr) = Inr fs1"
    by (simp add: open_w_def fs')
  have r: "\<And>p. p \<noteq> output_file pr \<Longrightarrow> open_r fs' p = open_r fs p"
    using open_w_open_r [OF ow] by (simp add: fs' open_r_upd_other)
  have t: "\<And>d. ts_names fs' d = ts_names fs d"
    using ts_names_upd_File [of fs1 "output_file pr" "[]" written, OF o1] open_w_ts_names [OF ow]
    by (simp add: fs')
  show ?thesis using ow ow' r t by (rule main_cong)
qed

text \<open>
  C3. A second run, started in the state the first run left (nothing else changed in
  between), returns what the first run returned: the same error or success and the same
  file system, so classes.txt is identical after each run. The output path is not among
  the paths that either \<open>glob\<close> returns in that state, so the first run's output is
  not read by the second.
\<close>

theorem second_run_same_output:
  "main pr (snd (main pr fs)) = main pr fs
   \<and> output_file pr \<notin> set (glob (snd (main pr fs)) (join (source_folder pr) ''*.ts''))
   \<and> output_file pr \<notin> set (glob (snd (main pr fs)) (join (test_folder pr) ''*.ts''))"
proof -
  have "main pr (snd (main pr fs)) = main pr fs"
  proof (cases "open_w fs (output_file pr)")
    case (Inl e)
    then show ?thesis by (simp add: main_open_failed)
  next
    case (Inr fs1)
    from main_snd [OF Inr] obtain written
      where "snd (main pr fs) = fs1(output_file pr \<mapsto> File written)" ..
    with Inr show ?thesis by (rule rerun_after_open)
  qed
  then show ?thesis
    by (simp add: glob_source glob_test output_not_source output_not_test)
qed

text \<open>
  C3, witness: the demonstration tree, where classes.txt does not exist before the first
  run.
\<close>

theorem second_run_same_output_witness:
  "main pr_demo (snd (main pr_demo fs_tree)) = main pr_demo fs_tree
   \<and> fs_tree (output_file pr_demo) = None
   \<and> snd (main pr_demo fs_tree) (output_file pr_demo)
       = Some (File (''B'' @ [CHR 0x0A] @ ''class A {}'' @ [CHR 0x0A] @ ''T'' @ [CHR 0x0A]))
   \<and> snd (main pr_demo (snd (main pr_demo fs_tree))) (output_file pr_demo)
       = Some (File (''B'' @ [CHR 0x0A] @ ''class A {}'' @ [CHR 0x0A] @ ''T'' @ [CHR 0x0A]))"
proof -
  have a: "fs_tree (output_file pr_demo) = None" by code_simp
  have b: "snd (main pr_demo fs_tree) (output_file pr_demo)
       = Some (File (''B'' @ [CHR 0x0A] @ ''class A {}'' @ [CHR 0x0A] @ ''T'' @ [CHR 0x0A]))"
    by code_simp
  show ?thesis using second_run_same_output [of pr_demo fs_tree] a b by simp
qed


section \<open>What a run changes\<close>

text \<open>
  C5. A run changes nothing but classes.txt: every other path keeps its node, except
  that the directory holding classes.txt lists the new name when the run created the
  file. Opening the output for writing leaves it empty, and what a run returns does not
  depend on the content classes.txt had before: the old content is neither kept nor
  appended to.
\<close>

theorem only_classes_txt_changes:
  "(\<forall>p. p \<noteq> output_file pr \<and> p \<noteq> script_dir pr \<longrightarrow> snd (main pr fs) p = fs p)
   \<and> (snd (main pr fs) (script_dir pr) = fs (script_dir pr)
        \<or> (fs (output_file pr) = None
            \<and> (\<exists>ns. fs (script_dir pr) = Some (Dir ns) \<and> ''classes.txt'' \<notin> set ns
                  \<and> snd (main pr fs) (script_dir pr) = Some (Dir (ns @ [''classes.txt''])))))
   \<and> (\<forall>fs1. open_w fs (output_file pr) = Inr fs1 \<longrightarrow> fs1 (output_file pr) = Some (File []))
   \<and> (\<forall>old new. fs (output_file pr) = Some (File old)
          \<longrightarrow> main pr (fs(output_file pr \<mapsto> File new)) = main pr fs)"
proof (intro conjI allI impI)
  fix p assume p: "p \<noteq> output_file pr \<and> p \<noteq> script_dir pr"
  show "snd (main pr fs) p = fs p"
  proof (cases "open_w fs (output_file pr)")
    case (Inl e)
    then show ?thesis by (simp add: main_open_failed)
  next
    case (Inr fs1)
    from main_snd [OF Inr] obtain written
      where s: "snd (main pr fs) = fs1(output_file pr \<mapsto> File written)" ..
    from open_w_cases [OF Inr] have "fs1 p = fs p" using p by auto
    then show ?thesis using s p by simp
  qed
next
  show "snd (main pr fs) (script_dir pr) = fs (script_dir pr)
        \<or> (fs (output_file pr) = None
            \<and> (\<exists>ns. fs (script_dir pr) = Some (Dir ns) \<and> ''classes.txt'' \<notin> set ns
                  \<and> snd (main pr fs) (script_dir pr) = Some (Dir (ns @ [''classes.txt'']))))"
  proof (cases "open_w fs (output_file pr)")
    case (Inl e)
    then show ?thesis by (simp add: main_open_failed)
  next
    case (Inr fs1)
    from main_snd [OF Inr] obtain written
      where "snd (main pr fs) = fs1(output_file pr \<mapsto> File written)" ..
    then have s: "snd (main pr fs) (script_dir pr) = fs1 (script_dir pr)"
      using script_dir_ne_output by simp
    from open_w_cases [OF Inr] show ?thesis
    proof
      assume "\<exists>old. fs (output_file pr) = Some (File old) \<and> fs1 = fs(output_file pr \<mapsto> File [])"
      then have "fs1 (script_dir pr) = fs (script_dir pr)"
        using script_dir_ne_output by auto
      then show ?thesis using s by simp
    next
      assume "fs (output_file pr) = None \<and> (\<exists>ns. fs (script_dir pr) = Some (Dir ns) \<and>
           fs1 = fs(output_file pr \<mapsto> File [],
                    script_dir pr \<mapsto> Dir (if ''classes.txt'' \<in> set ns then ns else ns @ [''classes.txt''])))"
      then obtain ns where n: "fs (output_file pr) = None" "fs (script_dir pr) = Some (Dir ns)"
        "fs1 (script_dir pr) = Some (Dir (if ''classes.txt'' \<in> set ns then ns else ns @ [''classes.txt'']))"
        by auto
      show ?thesis
      proof (cases "''classes.txt'' \<in> set ns")
        case True
        then show ?thesis using n s by simp
      next
        case False
        then show ?thesis using n s by simp
      qed
    qed
  qed
next
  fix fs1 assume "open_w fs (output_file pr) = Inr fs1"
  then show "fs1 (output_file pr) = Some (File [])" by (rule open_w_output)
next
  fix old new assume old: "fs (output_file pr) = Some (File old)"
  define fs1 where "fs1 = fs(output_file pr \<mapsto> File [])"
  have ow: "open_w fs (output_file pr) = Inr fs1"
    using old by (simp add: open_w_def fs1_def)
  have "fs(output_file pr \<mapsto> File new) = fs1(output_file pr \<mapsto> File new)"
    by (simp add: fs1_def)
  with ow show "main pr (fs(output_file pr \<mapsto> File new)) = main pr fs"
    by (rule rerun_after_open)
qed

text \<open>
  C5, witness: the demonstration tree with a stale classes.txt.
\<close>

theorem only_classes_txt_changes_witness:
  "fs_stale (output_file pr_demo) = Some (File ''stale'')
   \<and> ''/repo/src/a.ts'' \<noteq> output_file pr_demo \<and> ''/repo/src/a.ts'' \<noteq> script_dir pr_demo
   \<and> snd (main pr_demo fs_stale) ''/repo/src/a.ts'' = fs_stale ''/repo/src/a.ts''
   \<and> snd (main pr_demo fs_stale) (script_dir pr_demo) = fs_stale (script_dir pr_demo)
   \<and> snd (main pr_demo fs_stale) (output_file pr_demo)
       = Some (File (''B'' @ [CHR 0x0A] @ ''class A {}'' @ [CHR 0x0A] @ ''T'' @ [CHR 0x0A]))
   \<and> main pr_demo (fs_stale(output_file pr_demo \<mapsto> File ''other'')) = main pr_demo fs_stale"
proof -
  have a: "fs_stale (output_file pr_demo) = Some (File ''stale'')" by code_simp
  have b: "''/repo/src/a.ts'' \<noteq> output_file pr_demo \<and> ''/repo/src/a.ts'' \<noteq> script_dir pr_demo"
    by code_simp
  have c: "snd (main pr_demo fs_stale) (script_dir pr_demo) = fs_stale (script_dir pr_demo)"
    by code_simp
  have d: "snd (main pr_demo fs_stale) (output_file pr_demo)
       = Some (File (''B'' @ [CHR 0x0A] @ ''class A {}'' @ [CHR 0x0A] @ ''T'' @ [CHR 0x0A]))"
    by code_simp
  note t = only_classes_txt_changes [of pr_demo fs_stale]
  have e: "snd (main pr_demo fs_stale) ''/repo/src/a.ts'' = fs_stale ''/repo/src/a.ts''"
    by (rule t [THEN conjunct1, rule_format, OF b])
  have f: "main pr_demo (fs_stale(output_file pr_demo \<mapsto> File ''other'')) = main pr_demo fs_stale"
    by (rule t [THEN conjunct2, THEN conjunct2, THEN conjunct2, rule_format, OF a])
  show ?thesis by (intro conjI a conjunct1 [OF b] conjunct2 [OF b] e c d f)
qed


section \<open>The output is not an input\<close>

text \<open>
  C10. In every state of the file system the output path is returned by neither
  \<open>glob\<close>: it lies in the root directory, which is neither src/ nor tests/, and
  its name classes.txt does not match the pattern.
\<close>

theorem output_is_never_an_input:
  "output_file pr \<notin> set (glob fs (join (source_folder pr) ''*.ts''))
   \<and> output_file pr \<notin> set (glob fs (join (test_folder pr) ''*.ts''))
   \<and> path_split (output_file pr) = (script_dir pr, ''classes.txt'')
   \<and> script_dir pr \<noteq> source_folder pr
   \<and> script_dir pr \<noteq> test_folder pr
   \<and> \<not> fnmatch ''classes.txt'' ''*.ts''"
  by (simp add: glob_source glob_test output_not_source output_not_test split_output
      script_dir_ne_source script_dir_ne_test fnmatch_ts suffix_def)

text \<open>
  C10, witness: the demonstration tree.
\<close>

theorem output_is_never_an_input_witness:
  "output_file pr_demo = ''/repo/classes.txt''
   \<and> glob fs_tree (join (source_folder pr_demo) ''*.ts'') = [''/repo/src/b.ts'', ''/repo/src/a.ts'']
   \<and> output_file pr_demo \<notin> set (glob fs_tree (join (source_folder pr_demo) ''*.ts''))
   \<and> output_file pr_demo \<notin> set (glob fs_tree (join (test_folder pr_demo) ''*.ts''))
   \<and> path_split (output_file pr_demo) = (''/repo'', ''classes.txt'')"
proof -
  have a: "output_file pr_demo = ''/repo/classes.txt''" by code_simp
  have b: "glob fs_tree (join (source_folder pr_demo) ''*.ts'') = [''/repo/src/b.ts'', ''/repo/src/a.ts'']"
    by code_simp
  have c: "script_dir pr_demo = ''/repo''" by code_simp
  note t = output_is_never_an_input [of pr_demo fs_tree]
  have d: "path_split (output_file pr_demo) = (''/repo'', ''classes.txt'')"
    using t c by simp
  show ?thesis
    by (intro conjI a b d t [THEN conjunct1] t [THEN conjunct2, THEN conjunct1])
qed


section \<open>Hidden files\<close>

lemma hidden_not_matched: "ishidden n \<Longrightarrow> n \<notin> set (ts_names fs d)"
  by (simp add: ts_names_def)

lemma hidden_not_abs: "ishidden n \<Longrightarrow> take 1 n \<noteq> ''/''"
  by (cases n) (simp_all add: ishidden_def)

lemma hidden_path_not_matched:
  assumes "ishidden n" and "\<forall>m\<in>set (listdir fs d). CHR ''/'' \<notin> set m"
  shows "join d n \<notin> set (map (join d) (ts_names fs d))"
proof
  assume "join d n \<in> set (map (join d) (ts_names fs d))"
  then obtain m where m: "m \<in> set (ts_names fs d)" and eq: "join d m = join d n"
    by auto
  from m have "m \<in> set (listdir fs d)" by (simp add: ts_names_def)
  then have "CHR ''/'' \<notin> set m" using assms(2) by blast
  then have jm: "join d m = dir_prefix d @ m" by (intro join_rel no_sep_rel)
  have jn: "join d n = dir_prefix d @ n"
    using assms(1) by (intro join_rel hidden_not_abs)
  have "dir_prefix d @ m = dir_prefix d @ n"
    using eq unfolding jm jn .
  then have "m = n" by simp
  then show False using m hidden_not_matched [OF assms(1)] by blast
qed

text \<open>
  C9. A name that begins with a dot is never among the names that \<open>glob\<close> keeps
  for the pattern \<open>*.ts\<close>, in any directory, although \<open>fnmatch\<close> alone would accept
  it. So, in a directory listing whose names hold no slash (as every real listing), the
  path of such a file in src/ or tests/ is not among the paths the program reads.
\<close>

theorem hidden_files_are_skipped:
  assumes "ishidden n"
  shows "n \<notin> set (glob1 fs d ''*.ts'')
       \<and> ((\<forall>m\<in>set (listdir fs (source_folder pr)). CHR ''/'' \<notin> set m)
            \<longrightarrow> join (source_folder pr) n \<notin> set (glob fs (join (source_folder pr) ''*.ts'')))
       \<and> ((\<forall>m\<in>set (listdir fs (test_folder pr)). CHR ''/'' \<notin> set m)
            \<longrightarrow> join (test_folder pr) n \<notin> set (glob fs (join (test_folder pr) ''*.ts'')))"
proof (intro conjI impI)
  show "n \<notin> set (glob1 fs d ''*.ts'')"
    unfolding glob1_ts using assms by (rule hidden_not_matched)
next
  assume "\<forall>m\<in>set (listdir fs (source_folder pr)). CHR ''/'' \<notin> set m"
  with assms show "join (source_folder pr) n \<notin> set (glob fs (join (source_folder pr) ''*.ts''))"
    unfolding glob_source source_paths_def by (rule hidden_path_not_matched)
next
  assume "\<forall>m\<in>set (listdir fs (test_folder pr)). CHR ''/'' \<notin> set m"
  with assms show "join (test_folder pr) n \<notin> set (glob fs (join (test_folder pr) ''*.ts''))"
    unfolding glob_test test_paths_def by (rule hidden_path_not_matched)
qed

text \<open>
  C9, witness: .hidden.ts in the src/ of the demonstration tree.
\<close>

theorem hidden_files_are_skipped_witness:
  "ishidden ''.hidden.ts''
   \<and> fnmatch ''.hidden.ts'' ''*.ts''
   \<and> listdir fs_tree (source_folder pr_demo) = [''b.ts'', ''.hidden.ts'', ''a.ts'', ''notes.txt'']
   \<and> fs_tree (join (source_folder pr_demo) ''.hidden.ts'') = Some (File ''H'')
   \<and> ''.hidden.ts'' \<notin> set (glob1 fs_tree (source_folder pr_demo) ''*.ts'')
   \<and> join (source_folder pr_demo) ''.hidden.ts''
        \<notin> set (glob fs_tree (join (source_folder pr_demo) ''*.ts''))"
proof -
  have a: "ishidden ''.hidden.ts''" by code_simp
  have b: "fnmatch ''.hidden.ts'' ''*.ts''" by code_simp
  have l: "listdir fs_tree (source_folder pr_demo) = [''b.ts'', ''.hidden.ts'', ''a.ts'', ''notes.txt'']"
    by code_simp
  have f: "fs_tree (join (source_folder pr_demo) ''.hidden.ts'') = Some (File ''H'')"
    by code_simp
  have w: "\<forall>m\<in>set (listdir fs_tree (source_folder pr_demo)). CHR ''/'' \<notin> set m"
    unfolding l by simp
  note t = hidden_files_are_skipped [OF a, of fs_tree "source_folder pr_demo" pr_demo]
  show ?thesis
    by (intro conjI a b l f t [THEN conjunct1]
        t [THEN conjunct2, THEN conjunct1, THEN mp, OF w])
qed


section \<open>The three paths\<close>

lemma dirname_file:
  assumes "CHR ''/'' \<notin> set b" and "x \<noteq> []" and "last x \<noteq> CHR ''/''"
  shows "dirname (x @ ''/'' @ b) = x"
proof -
  have "path_split (join x b) = (x, b)"
    by (rule split_join) (use assms in auto)
  moreover have "join x b = x @ ''/'' @ b"
    using join_rel [OF no_sep_rel [OF assms(1)], of x] assms(2,3) by (simp add: dir_prefix_def)
  ultimately show ?thesis by (simp add: dirname_fst)
qed

lemma dirname_top:
  assumes "CHR ''/'' \<notin> set d" and "set r \<subseteq> {CHR ''/''}"
  shows "dirname (r @ ''/'' @ d) = r @ ''/''"
proof -
  have s: "set (r @ ''/'') \<subseteq> {CHR ''/''}" using assms(2) by auto
  have "path_split (join (r @ ''/'') d) = (r @ ''/'', d)"
    by (rule split_join) (use s assms(1) in auto)
  moreover have "join (r @ ''/'') d = r @ ''/'' @ d"
    using join_rel [OF no_sep_rel [OF assms(1)], of "r @ ''/''"] by (simp add: dir_prefix_def)
  ultimately show ?thesis by (simp add: dirname_fst)
qed

lemma script_dir_shape:
  assumes "abspath (cwd pr) (script_file pr) = r @ ''/'' @ d @ ''/'' @ b"
    and "d \<noteq> []" and "CHR ''/'' \<notin> set d" and "CHR ''/'' \<notin> set b"
    and "set r \<subseteq> {CHR ''/''} \<or> last r \<noteq> CHR ''/''"
  shows "script_dir pr = (if set r \<subseteq> {CHR ''/''} then r @ ''/'' else r)"
proof -
  have l: "last (r @ ''/'' @ d) \<noteq> CHR ''/''"
    using assms(2,3) by (cases d rule: rev_cases) auto
  have "dirname ((r @ ''/'' @ d) @ ''/'' @ b) = r @ ''/'' @ d"
    by (rule dirname_file) (use assms l in auto)
  then have one: "dirname (abspath (cwd pr) (script_file pr)) = r @ ''/'' @ d"
    using assms(1) by simp
  show ?thesis
  proof (cases "set r \<subseteq> {CHR ''/''}")
    case True
    then show ?thesis using one dirname_top [OF assms(3) True] by (simp add: script_dir_def)
  next
    case False
    then have "r \<noteq> []" "last r \<noteq> CHR ''/''" using assms(5) by auto
    then have "dirname (r @ ''/'' @ d) = r" using assms(3) by (intro dirname_file)
    then show ?thesis using one False by (simp add: script_dir_def)
  qed
qed

text \<open>
  C4. Let the absolute path of the program's own file be \<open>r/d/b\<close>, with \<open>d\<close> the
  directory that holds the file and \<open>r\<close> the directory two levels up (\<open>r\<close> is empty
  when that is the file system's root). Then the source directory is \<open>r/src\<close>, the test
  directory \<open>r/tests\<close> and the output file \<open>r/classes.txt\<close>; each is the join of the one
  root \<open>script_dir\<close> with a fixed name, and none depends on the arguments or the
  environment of the process.
\<close>

theorem paths_from_script_location:
  assumes "abspath (cwd pr) (script_file pr) = r @ ''/'' @ d @ ''/'' @ b"
    and "d \<noteq> []" and "CHR ''/'' \<notin> set d" and "CHR ''/'' \<notin> set b"
    and "set r \<subseteq> {CHR ''/''} \<or> last r \<noteq> CHR ''/''"
  shows "source_folder pr = r @ ''/src''
       \<and> test_folder pr = r @ ''/tests''
       \<and> output_file pr = r @ ''/classes.txt''
       \<and> source_folder pr = join (script_dir pr) ''src''
       \<and> test_folder pr = join (script_dir pr) ''tests''
       \<and> output_file pr = join (script_dir pr) ''classes.txt''
       \<and> script_dir pr = dirname (dirname (abspath (cwd pr) (script_file pr)))
       \<and> (\<forall>args env. source_folder (pr\<lparr>argv := args, environ := env\<rparr>) = source_folder pr
                     \<and> test_folder (pr\<lparr>argv := args, environ := env\<rparr>) = test_folder pr
                     \<and> output_file (pr\<lparr>argv := args, environ := env\<rparr>) = output_file pr)"
proof -
  note sd = script_dir_shape [OF assms]
  have j: "\<And>x. take 1 x \<noteq> ''/'' \<Longrightarrow> join (script_dir pr) x = r @ ''/'' @ x"
  proof -
    fix x :: string assume x: "take 1 x \<noteq> ''/''"
    show "join (script_dir pr) x = r @ ''/'' @ x"
    proof (cases "set r \<subseteq> {CHR ''/''}")
      case True
      then show ?thesis using sd x by (simp add: join_rel dir_prefix_def)
    next
      case False
      then have "r \<noteq> []" "last r \<noteq> CHR ''/''" using assms(5) by auto
      then show ?thesis using sd x False by (simp add: join_rel dir_prefix_def)
    qed
  qed
  have p1: "source_folder pr = r @ ''/src''"
    unfolding source_folder_def using j [of "''src''"] by simp
  have p2: "test_folder pr = r @ ''/tests''"
    unfolding test_folder_def using j [of "''tests''"] by simp
  have p3: "output_file pr = r @ ''/classes.txt''"
    unfolding output_file_def using j [of "''classes.txt''"] by simp
  have p4: "\<forall>args env. source_folder (pr\<lparr>argv := args, environ := env\<rparr>) = source_folder pr
                     \<and> test_folder (pr\<lparr>argv := args, environ := env\<rparr>) = test_folder pr
                     \<and> output_file (pr\<lparr>argv := args, environ := env\<rparr>) = output_file pr"
    by (simp add: source_folder_def test_folder_def output_file_def script_dir_def)
  show ?thesis
    by (intro conjI p1 p2 p3 p4 source_folder_def test_folder_def output_file_def script_dir_def)
qed

text \<open>
  C4, witness: the script at /repo/scripts, started from /repo, with and without
  arguments and environment.
\<close>

theorem paths_from_script_location_witness:
  "abspath (cwd pr_demo) (script_file pr_demo) = ''/repo'' @ ''/'' @ ''scripts'' @ ''/'' @ ''concatenate_lib_classes.py''
   \<and> source_folder pr_demo = ''/repo/src''
   \<and> test_folder pr_demo = ''/repo/tests''
   \<and> output_file pr_demo = ''/repo/classes.txt''
   \<and> pr_demo\<lparr>argv := [''--root'', ''/elsewhere''], environ := [(''ROOT'', ''/elsewhere'')]\<rparr> = pr_args
   \<and> source_folder pr_args = ''/repo/src''
   \<and> test_folder pr_args = ''/repo/tests''
   \<and> output_file pr_args = ''/repo/classes.txt''"
proof -
  have a: "abspath (cwd pr_demo) (script_file pr_demo)
             = ''/repo'' @ ''/'' @ ''scripts'' @ ''/'' @ ''concatenate_lib_classes.py''"
    by code_simp
  have h: "''scripts'' \<noteq> []" "CHR ''/'' \<notin> set ''scripts''"
    "CHR ''/'' \<notin> set ''concatenate_lib_classes.py''"
    "set ''/repo'' \<subseteq> {CHR ''/''} \<or> last ''/repo'' \<noteq> CHR ''/''"
    by simp_all
  note t = paths_from_script_location [OF a h]
  have e: "pr_demo\<lparr>argv := [''--root'', ''/elsewhere''], environ := [(''ROOT'', ''/elsewhere'')]\<rparr> = pr_args"
    by (simp add: pr_demo_def pr_args_def)
  have p1: "source_folder pr_demo = ''/repo/src''"
    using t [THEN conjunct1] by simp
  have p2: "test_folder pr_demo = ''/repo/tests''"
    using t [THEN conjunct2, THEN conjunct1] by simp
  have p3: "output_file pr_demo = ''/repo/classes.txt''"
    using t [THEN conjunct2, THEN conjunct2, THEN conjunct1] by simp
  have q: "source_folder pr_args = source_folder pr_demo \<and> test_folder pr_args = test_folder pr_demo
      \<and> output_file pr_args = output_file pr_demo"
    using t [THEN conjunct2, THEN conjunct2, THEN conjunct2, THEN conjunct2, THEN conjunct2,
        THEN conjunct2, THEN conjunct2,
        THEN spec [where x = "[''--root'', ''/elsewhere'']"],
        THEN spec [where x = "[(''ROOT'', ''/elsewhere'')]"]]
    unfolding e .
  have q1: "source_folder pr_args = ''/repo/src''"
    using q [THEN conjunct1] unfolding p1 .
  have q2: "test_folder pr_args = ''/repo/tests''"
    using q [THEN conjunct2, THEN conjunct1] unfolding p2 .
  have q3: "output_file pr_args = ''/repo/classes.txt''"
    using q [THEN conjunct2, THEN conjunct2] unfolding p3 .
  show ?thesis by (intro conjI a e p1 p2 p3 q1 q2 q3)
qed

section \<open>Runs that succeed and runs that stop\<close>

lemma has_magic_folders:
  "has_magic (source_folder pr) = has_magic (script_dir pr)"
  "has_magic (test_folder pr) = has_magic (script_dir pr)"
  by (auto simp: source_folder_def test_folder_def join_def has_magic_def)




lemma main_success:
  assumes "main pr fs = (None, fs')"
  shows "fs' (output_file pr) = Some (File (blocks fs (source_paths pr fs) @ blocks fs (test_paths pr fs)))"
proof (cases "open_w fs (output_file pr)")
  case (Inl e)
  then show ?thesis using assms by (simp add: main_open_failed)
next
  case (Inr fs1)
  define P where "P = source_paths pr fs @ test_paths pr fs"
  define s where "s = blocks fs (takeWhile (readable (preferred_encoding pr) fs) P)"
  have m: "main pr fs =
      (if over_limit (rlimit_fsize pr) s then Some OSError_EFBIG
       else first_error (preferred_encoding pr) fs P,
       fs1(output_file pr \<mapsto> File (within_limit (rlimit_fsize pr) s)))"
    unfolding main_result_combined [OF Inr] P_def s_def ..
  have fit: "\<not> over_limit (rlimit_fsize pr) s"
    using assms m by (auto split: if_splits)
  then have fe: "first_error (preferred_encoding pr) fs P = None"
    using assms m by simp
  have tw: "takeWhile (readable (preferred_encoding pr) fs) P = P"
    using fe by (rule first_error_None)
  have "fs' = fs1(output_file pr \<mapsto> File s)"
    using assms m fit by (simp add: within_limit_id)
  then show ?thesis
    by (simp add: s_def tw blocks_append [symmetric] P_def [symmetric])
qed





lemma demo_process:
  "preferred_encoding pr_demo = UTF8" "rlimit_fsize pr_demo = None" "\<not> has_magic (script_dir pr_demo)"
  "script_dir pr_demo = ''/repo''"
  by code_simp+



section \<open>The content of classes.txt\<close>

text \<open>
  C1, as amended. When a run completes without error, classes.txt holds one block per
  path that \<open>glob\<close> returns for \<open>src/*.ts\<close>, in the order of the directory listing,
  then one block per path returned for \<open>tests/*.ts\<close>, and nothing else: no header, no
  delimiter, no file name. A block is the text that \<open>read()\<close> returns for the file,
  which is the file's content with every CR LF pair and every lone CR replaced by LF,
  followed by one LF. The root path holds none of the characters that \<open>glob\<close> expands
  in a directory name.
\<close>

theorem classes_txt_content:
  assumes "main pr fs = (None, fs')" and "\<not> has_magic (script_dir pr)"
  shows "fs' (output_file pr) =
           Some (File (concat (map (\<lambda>p. universal_newlines (contents fs p) @ [CHR 0x0A])
                                   (glob fs (join (source_folder pr) ''*.ts'')))
                       @ concat (map (\<lambda>p. universal_newlines (contents fs p) @ [CHR 0x0A])
                                     (glob fs (join (test_folder pr) ''*.ts'')))))"
  using main_success [OF assms(1)]
  by (simp add: glob_source glob_test blocks_def block_def [abs_def])

text \<open>
  C1, witness: a tree with two matching source files (listed b.ts before a.ts), a hidden
  file, a file of another extension and one test file.
\<close>

theorem classes_txt_content_witness:
  "main pr_demo fs_tree = (None, snd (main pr_demo fs_tree))
   \<and> \<not> has_magic (script_dir pr_demo)
   \<and> glob fs_tree (join (source_folder pr_demo) ''*.ts'') = [''/repo/src/b.ts'', ''/repo/src/a.ts'']
   \<and> glob fs_tree (join (test_folder pr_demo) ''*.ts'') = [''/repo/tests/t.ts'']
   \<and> snd (main pr_demo fs_tree) (output_file pr_demo)
       = Some (File (''B'' @ [CHR 0x0A] @ ''class A {}'' @ [CHR 0x0A] @ ''T'' @ [CHR 0x0A]))"
proof -
  have ok: "fst (main pr_demo fs_tree) = None" by code_simp
  then have h: "main pr_demo fs_tree = (None, snd (main pr_demo fs_tree))"
    by (metis prod.collapse)
  have g1: "glob fs_tree (join (source_folder pr_demo) ''*.ts'') = [''/repo/src/b.ts'', ''/repo/src/a.ts'']"
    by code_simp
  have g2: "glob fs_tree (join (test_folder pr_demo) ''*.ts'') = [''/repo/tests/t.ts'']"
    by code_simp
  have c: "contents fs_tree ''/repo/src/b.ts'' = ''B''" "contents fs_tree ''/repo/src/a.ts'' = ''class A {}''"
     "contents fs_tree ''/repo/tests/t.ts'' = ''T''"
    by code_simp+
  have r: "snd (main pr_demo fs_tree) (output_file pr_demo)
       = Some (File (''B'' @ [CHR 0x0A] @ ''class A {}'' @ [CHR 0x0A] @ ''T'' @ [CHR 0x0A]))"
    using classes_txt_content [OF h demo_process(3)] by (simp add: g1 g2 c)
  show ?thesis by (intro conjI h demo_process(3) g1 g2 r)
qed

text \<open>
  C1 as stated (each file's raw content followed by one newline) fails where a matched
  file holds a carriage return: src/a.ts holding A CR LF B gives the output A LF B LF,
  not A CR LF B LF.
\<close>

theorem classes_txt_raw_counterexample:
  "fs_crlf (source_folder pr_demo) = Some (Dir [''a.ts''])
   \<and> fs_crlf (test_folder pr_demo) = Some (Dir [])
   \<and> fst (main pr_demo fs_crlf) = None
   \<and> spec_classes_txt pr_demo fs_crlf = [CHR ''A'', CHR 0x0D, CHR 0x0A, CHR ''B'', CHR 0x0A]
   \<and> snd (main pr_demo fs_crlf) (output_file pr_demo) = Some (File [CHR ''A'', CHR 0x0A, CHR ''B'', CHR 0x0A])
   \<and> snd (main pr_demo fs_crlf) (output_file pr_demo) \<noteq> Some (File (spec_classes_txt pr_demo fs_crlf))"
  by code_simp

section \<open>A missing directory\<close>




section \<open>Directories without a match\<close>




section \<open>Errors in the middle of a run\<close>




section \<open>The source part after the first phase\<close>



end
